theory Spec2Isabelle
  imports Main "HOL-Library.Word" "HOL-Library.Multiset"
begin

unbundle bit_operations_syntax

section \<open>Mapped addresses (MemoryReader.hh)\<close>

text \<open>
  \<open>MappedPtr<T>\<close> wraps one \<open>uint64_t\<close>; all its arithmetic is unsigned 64-bit
  arithmetic and wraps around. \<open>size_t\<close> is 64 bits wide (the program is built for
  64-bit hosts only, see the \<open>static_assert\<close> in \<open>find_region_by_host_addr\<close>).
\<close>

type_synonym u64 = "64 word"
type_synonym MappedPtr = "64 word"
type_synonym byte = "8 word"

definition offset_bytes :: "MappedPtr \<Rightarrow> u64 \<Rightarrow> MappedPtr" where
  "offset_bytes p bytes = p + bytes"

definition bytes_until :: "MappedPtr \<Rightarrow> MappedPtr \<Rightarrow> u64" where
  "bytes_until p end_ptr = end_ptr - p"

definition is_null :: "MappedPtr \<Rightarrow> bool" where
  "is_null p = (p = 0)"

section \<open>The snapshot store (MemoryReader)\<close>

text \<open>
  \<open>MemoryMappedFile::View\<close>: one region. \<open>view_data\<close> stands for the bytes of the
  backing file that the host pointer \<open>data\<close> addresses (the mapping of the file from
  \<open>file_offset\<close> on).
\<close>

record View =
  view_addr :: MappedPtr
  view_file_offset :: u64
  view_data :: "byte list"
  view_size :: u64

text \<open>
  \<open>regions_by_mapped\<close> is a \<open>std::map<MappedPtr<void>, View>\<close>: its entries in
  iteration order, that is by ascending key.
\<close>

record MemoryReader =
  regions_by_mapped :: "(MappedPtr \<times> View) list"
  total_bytes :: u64

datatype error = OutOfRange | LogicError | RuntimeError

text \<open>\<open>std::map::upper_bound\<close>: the position of the first entry whose key is greater.\<close>

definition upper_bound :: "(MappedPtr \<times> 'v) list \<Rightarrow> MappedPtr \<Rightarrow> nat" where
  "upper_bound m k = length (takeWhile (\<lambda>e. fst e \<le> k) m)"

definition find_region_by_mapped_addr :: "MemoryReader \<Rightarrow> MappedPtr \<Rightarrow> error + View" where
  "find_region_by_mapped_addr r addr =
     (let it = upper_bound (regions_by_mapped r) addr in
      if it = 0 then Inl OutOfRange
      else
        let v = snd (regions_by_mapped r ! (it - 1)) in
        if offset_bytes (view_addr v) (view_size v) \<le> addr then Inl OutOfRange
        else Inr v)"


definition exists_range :: "MemoryReader \<Rightarrow> MappedPtr \<Rightarrow> u64 \<Rightarrow> bool" where
  "exists_range r addr sz =
     (case find_region_by_mapped_addr r addr of
        Inr rgn \<Rightarrow> bytes_until (view_addr rgn) (offset_bytes addr sz) \<le> view_size rgn
      | Inl _ \<Rightarrow> False)"

text \<open>
  \<open>read\<close> returns a reader over \<open>size\<close> bytes of the region's data from \<open>offset\<close> on;
  the model returns those bytes.
\<close>

definition read :: "MemoryReader \<Rightarrow> MappedPtr \<Rightarrow> u64 \<Rightarrow> error + byte list" where
  "read r addr sz =
     (case find_region_by_mapped_addr r addr of
        Inl e \<Rightarrow> Inl e
      | Inr rgn \<Rightarrow>
          let offset = bytes_until (view_addr rgn) addr in
          if offset + sz > view_size rgn \<or> offset + sz < offset then Inl OutOfRange
          else Inr (take (unat sz) (drop (unat offset) (view_data rgn))))"


text \<open>
  \<open>obj_valid<T>\<close> and \<open>obj_valid_or_null<T>\<close>; \<open>sizeof_T\<close> is \<open>sizeof(SizeType)\<close>, the
  template parameter's size (1 for \<open>void\<close>).
\<close>

definition obj_valid :: "MemoryReader \<Rightarrow> u64 \<Rightarrow> MappedPtr \<Rightarrow> u64 \<Rightarrow> bool" where
  "obj_valid r sizeof_T addr alignment =
     (addr \<noteq> 0 \<and> addr AND (alignment - 1) = 0 \<and> exists_range r addr sizeof_T)"

definition obj_valid_or_null :: "MemoryReader \<Rightarrow> u64 \<Rightarrow> MappedPtr \<Rightarrow> u64 \<Rightarrow> bool" where
  "obj_valid_or_null r sizeof_T addr alignment =
     (addr = 0 \<or> \<not> (addr AND (alignment - 1) \<noteq> 0 \<and> exists_range r addr sizeof_T))"

text \<open>A reader over a single region of \<open>n\<close> zero bytes at \<open>start\<close>.\<close>

definition zero_view :: "MappedPtr \<Rightarrow> nat \<Rightarrow> View" where
  "zero_view start n =
     \<lparr>view_addr = start, view_file_offset = 0, view_data = replicate n 0, view_size = of_nat n\<rparr>"

definition one_region_reader :: "MappedPtr \<Rightarrow> nat \<Rightarrow> MemoryReader" where
  "one_region_reader start n =
     \<lparr>regions_by_mapped = [(start, zero_view start n)], total_bytes = of_nat n\<rparr>"





section \<open>The parallel scanner (MemoryReader::map_all_addresses)\<close>


definition size_add :: "nat \<Rightarrow> nat \<Rightarrow> nat" where
  "size_add a b = (a + b) mod 2 ^ 64"















section \<open>Address formatting\<close>

text \<open>
  The \<open>std::formatter\<close> of \<open>MappedPtr\<close> prints \<open>{:016X}\<close>: sixteen upper-case
  hexadecimal digits (a 64-bit value never needs more).
\<close>

definition hex_digit :: "nat \<Rightarrow> char" where
  "hex_digit d = ''0123456789ABCDEF'' ! d"

fun hex_digits :: "nat \<Rightarrow> nat \<Rightarrow> string" where
  "hex_digits 0 n = []"
| "hex_digits (Suc k) n = hex_digits k (n div 16) @ [hex_digit (n mod 16)]"

definition fmt_addr :: "MappedPtr \<Rightarrow> string" where
  "fmt_addr a = hex_digits 16 (unat a)"

section \<open>The type catalog (find_base_type_object, find_all_type_objects, prepare)\<close>

text \<open>
  What the catalog queries use of the \<open>PyTypeObject\<close> that the scanner hands to the
  predicate at an address: its \<open>ob_type\<close> field and the results of its methods
  \<open>invalid_reason(env)\<close> (\<open>None\<close> for \<open>nullptr\<close>) and \<open>name(env.r)\<close>. The methods
  are defined in Types/PyTypeObject.cc, which is not under src/; the view at every address
  is a parameter \<open>decode\<close> of the queries, a function of the snapshot bytes.
\<close>

record PyTypeObject =
  ob_type :: MappedPtr
  tp_invalid_reason :: "string option"
  tp_name :: string

text \<open>The two fields of \<open>Environment\<close> that make up the catalog.\<close>

record Environment =
  base_type_object :: MappedPtr
  type_objects :: "string \<rightharpoonup> MappedPtr"

text \<open>The lines the catalog queries write to stderr.\<close>

datatype message =
    BaseTypeCandidateFound MappedPtr
  | BaseTypeNotPresent
  | FailedToFindBaseType
  | NoTypeObjectsPresent
  | FoundType string MappedPtr
  | WarningTypeExists string MappedPtr MappedPtr

text \<open>
  The state the queries act on: the environment, the analysis data written so far, and
  stderr.
\<close>

record AnalysisShell =
  env :: Environment
  analysis_data :: "Environment list"
  stderr_lines :: "message list"

text \<open>
  Modelled from the spec: \<open>Environment::save_analysis\<close> (Environment.cc is not under
  src/) persists the catalog, \<open>base_type\<close> and \<open>types_by_name\<close>, next to the snapshot.
  The model appends the catalog written to the history of writes.
\<close>

definition save_analysis :: "AnalysisShell \<Rightarrow> AnalysisShell" where
  "save_analysis sh = sh\<lparr>analysis_data := analysis_data sh @ [env sh]\<rparr>"

definition log_stderr :: "message \<Rightarrow> AnalysisShell \<Rightarrow> AnalysisShell" where
  "log_stderr msg sh = sh\<lparr>stderr_lines := stderr_lines sh @ [msg]\<rparr>"

text \<open>
  The condition under which the predicate of \<open>find_base_type_object\<close> goes on to
  record \<open>addr\<close>.
\<close>

definition is_base_type_candidate :: "(MappedPtr \<Rightarrow> PyTypeObject) \<Rightarrow> MappedPtr \<Rightarrow> bool" where
  "is_base_type_candidate decode addr =
     (let ty = decode addr in
      \<not> (ob_type ty \<noteq> addr \<or> tp_invalid_reason ty \<noteq> None \<or> tp_name ty \<noteq> ''type''))"

text \<open>
  \<open>find_base_type_object\<close>. \<open>scan\<close> lists the addresses the scanner passes to the
  predicate, in the order in which the calls take the output lock.
\<close>

definition find_base_type_object ::
  "(MappedPtr \<Rightarrow> PyTypeObject) \<Rightarrow> MappedPtr list \<Rightarrow> AnalysisShell \<Rightarrow> AnalysisShell" where
  "find_base_type_object decode scan sh =
     (let candidates = filter (is_base_type_candidate decode) scan;
          sh1 = foldl (\<lambda>s addr. log_stderr (BaseTypeCandidateFound addr) s) sh candidates
      in if length candidates = 1
         then save_analysis (sh1\<lparr>env := (env sh1)\<lparr>base_type_object := candidates ! 0\<rparr>\<rparr>)
         else sh1)"

text \<open>\<open>std::unordered_map::emplace\<close>: the map, the value at the returned iterator, and
  whether the insertion took place.\<close>

definition emplace :: "('k \<rightharpoonup> 'v) \<Rightarrow> 'k \<Rightarrow> 'v \<Rightarrow> ('k \<rightharpoonup> 'v) \<times> 'v \<times> bool" where
  "emplace m k v = (case m k of None \<Rightarrow> (m(k \<mapsto> v), v, True) | Some v' \<Rightarrow> (m, v', False))"

text \<open>\<open>std::format("{}+{}", type_name, addr)\<close>\<close>

definition alternate_key :: "string \<Rightarrow> MappedPtr \<Rightarrow> string" where
  "alternate_key type_name addr = type_name @ ''+'' @ fmt_addr addr"

text \<open>
  The predicate of \<open>find_all_type_objects\<close>, on the shell and the flag
  \<open>any_env_changes_made\<close>.
\<close>

definition type_object_found ::
  "(MappedPtr \<Rightarrow> PyTypeObject) \<Rightarrow> AnalysisShell \<times> bool \<Rightarrow> MappedPtr \<Rightarrow> AnalysisShell \<times> bool" where
  "type_object_found decode st addr =
     (let sh = fst st; any_env_changes_made = snd st; ty = decode addr in
      if ob_type ty \<noteq> base_type_object (env sh) \<or> tp_invalid_reason ty \<noteq> None then st
      else
        let type_name = tp_name ty;
            emplace_ret = emplace (type_objects (env sh)) type_name addr
        in
          if snd (snd emplace_ret) then
            (log_stderr (FoundType type_name addr)
               (sh\<lparr>env := (env sh)\<lparr>type_objects := fst emplace_ret\<rparr>\<rparr>), True)
          else if fst (snd emplace_ret) \<noteq> addr then
            (log_stderr (WarningTypeExists type_name addr (fst (snd emplace_ret)))
               (sh\<lparr>env := (env sh)\<lparr>type_objects :=
                    fst (emplace (type_objects (env sh)) (alternate_key type_name addr) addr)\<rparr>\<rparr>),
             any_env_changes_made)
          else st)"

definition find_all_type_objects ::
  "(MappedPtr \<Rightarrow> PyTypeObject) \<Rightarrow> MappedPtr list \<Rightarrow> AnalysisShell \<Rightarrow> error + AnalysisShell" where
  "find_all_type_objects decode scan sh =
     (if is_null (base_type_object (env sh)) then Inl RuntimeError
      else
        let sh0 = sh\<lparr>env := (env sh)\<lparr>type_objects := Map.empty\<rparr>\<rparr>;
            st = foldl (type_object_found decode) (sh0, False) scan
        in Inr (if snd st then save_analysis (fst st) else fst st))"


text \<open>An empty shell, and a snapshot with two type objects named \<open>foo\<close>.\<close>

definition empty_shell :: AnalysisShell where
  "empty_shell =
     \<lparr>env = \<lparr>base_type_object = 0, type_objects = Map.empty\<rparr>,
      analysis_data = [], stderr_lines = []\<rparr>"

definition example_types :: "MappedPtr \<Rightarrow> PyTypeObject" where
  "example_types addr =
     (if addr = 0x5000 then \<lparr>ob_type = 0x5000, tp_invalid_reason = None, tp_name = ''type''\<rparr>
      else if addr = 0x1000 \<or> addr = 0x2000 then
        \<lparr>ob_type = 0x5000, tp_invalid_reason = None, tp_name = ''foo''\<rparr>
      else \<lparr>ob_type = 0, tp_invalid_reason = Some ''invalid'', tp_name = []\<rparr>)"

text \<open>The empty shell with the base type of the example snapshot already found.\<close>

definition example_shell :: AnalysisShell where
  "example_shell = empty_shell\<lparr>env := (env empty_shell)\<lparr>base_type_object := 0x5000\<rparr>\<rparr>"

section \<open>The await graph (async-task-graph)\<close>


text \<open>
  \<open>await_targets_for_obj\<close> is an \<open>unordered_map\<close> from addresses to \<open>unordered_set\<close>s
  of addresses: an association list with distinct keys, each set a list without
  duplicates. The iteration order of an \<open>unordered_set\<close> is not specified; the model
  iterates in insertion order.
\<close>

type_synonym await_graph = "(MappedPtr \<times> MappedPtr list) list"







text \<open>The spaces written before a line at a recursion depth.\<close>

definition indent :: "nat \<Rightarrow> string" where
  "indent recursion_depth = replicate (recursion_depth * 2) (CHR '' '')"

definition seen_line :: "MappedPtr \<Rightarrow> string" where
  "seen_line addr = ''<!seen>@'' @ fmt_addr addr"

definition missing_warning :: "MappedPtr \<Rightarrow> string" where
  "missing_warning addr = ''Warning: await target '' @ fmt_addr addr @ '' missing from graph''"

text \<open>
  \<open>print_entry\<close> and its loop over \<open>next_addrs\<close>. The state is the set \<open>seen\<close> and
  the lines written to stderr. \<open>repr\<close> stands for \<open>Traversal::repr\<close> (Traversal.cc is
  not under src/), which renders an address at the traversal's current recursion depth.
\<close>

function print_entry ::
    "await_graph \<Rightarrow> (nat \<Rightarrow> MappedPtr \<Rightarrow> string) \<Rightarrow> nat \<Rightarrow> MappedPtr \<Rightarrow>
       MappedPtr set \<times> string list \<Rightarrow> MappedPtr set \<times> string list"
  and print_entries ::
    "await_graph \<Rightarrow> (nat \<Rightarrow> MappedPtr \<Rightarrow> string) \<Rightarrow> nat \<Rightarrow> MappedPtr list \<Rightarrow>
       MappedPtr set \<times> string list \<Rightarrow> MappedPtr set \<times> string list" where
  "print_entry g repr recursion_depth addr st =
     (if is_null addr then st
      else
        let addr_seen = addr \<in> fst st;
            seen = insert addr (fst st);
            line = indent recursion_depth @ (if addr_seen then seen_line addr else repr recursion_depth addr);
            out = snd st @ [line]
        in
          if addr_seen then (seen, out)
          else
            (case map_of g addr of
               None \<Rightarrow> (seen, out @ [missing_warning addr])
             | Some next_addrs \<Rightarrow> print_entries g repr (recursion_depth + 1) next_addrs (seen, out)))"
| "print_entries g repr recursion_depth [] st = st"
| "print_entries g repr recursion_depth (next_addr # rest) st =
     print_entries g repr recursion_depth rest (print_entry g repr recursion_depth next_addr st)"
  by pat_completeness auto

text \<open>
  The recursion ends: the set \<open>seen\<close> only grows, and every call that goes on to the
  targets of an address has added that address, a key of the graph, to it.
\<close>

lemma print_seen_mono:
  "print_entry_print_entries_dom (Inl (g, repr, d, addr, st)) \<Longrightarrow>
     fst st \<subseteq> fst (print_entry g repr d addr st)"
  "print_entry_print_entries_dom (Inr (g, repr, d, addrs, st)) \<Longrightarrow>
     fst st \<subseteq> fst (print_entries g repr d addrs st)"
proof (induct g repr d addr st and g repr d addrs st rule: print_entry_print_entries.pinduct)
  case (1 g repr recursion_depth addr st)
  then show ?case
    by (auto simp: print_entry.psimps Let_def split: option.splits)
next
  case (2 g repr recursion_depth st)
  then show ?case by (simp add: print_entries.psimps)
next
  case (3 g repr recursion_depth next_addr rest st)
  then show ?case by (auto simp: print_entries.psimps)
qed

termination print_entry
proof (relation "inv_image (less_than <*lex*> less_than)
    (\<lambda>x. case x of
        Inl (g, repr, d, addr, st) \<Rightarrow> (card (fst ` set g - fst st), 0)
      | Inr (g, repr, d, addrs, st) \<Rightarrow> (card (fst ` set g - fst st), Suc (length addrs)))", goal_cases)
  case 1
  show ?case by (intro wf_inv_image wf_lex_prod wf_less_than)
next
  case (2 g repr recursion_depth addr st x xa xb xc x2)
  have "addr \<in> fst ` set g"
    using 2(7) by (auto dest!: map_of_SomeD intro: rev_image_eqI)
  moreover have "addr \<notin> fst st" using 2(2,6) by simp
  moreover have "finite (fst ` set g - fst st)" by simp
  ultimately have "card (fst ` set g - insert addr (fst st)) < card (fst ` set g - fst st)"
    by (intro psubset_card_mono) auto
  then show ?case using 2(3) by simp
next
  case (3 g repr recursion_depth next_addr rest st)
  show ?case by simp
next
  case (4 g repr recursion_depth next_addr rest st)
  have "fst st \<subseteq> fst (print_entry g repr recursion_depth next_addr st)"
    using 4 by (rule print_seen_mono(1))
  then have "card (fst ` set g - fst (print_entry g repr recursion_depth next_addr st))
        \<le> card (fst ` set g - fst st)"
    by (intro card_mono) auto
  then show ?case by auto
qed

declare print_entry.simps [simp del]





section \<open>Auxiliary notions for the scanner proofs\<close>

text \<open>
  The sizes of the regions, the global offset at which region \<open>i\<close> starts, the
  values \<open>z\<close> of the inner loop, and the blocks as pairs (region index, block number
  inside the region) with the addresses each block visits.
\<close>

definition region_sizes :: "(MappedPtr \<times> u64) list \<Rightarrow> nat list" where
  "region_sizes regions = map (\<lambda>rgn. unat (snd rgn)) regions"

definition start_offset :: "(MappedPtr \<times> u64) list \<Rightarrow> nat \<Rightarrow> nat" where
  "start_offset regions i = sum_list (take i (region_sizes regions))"









section \<open>Auxiliary notions for the catalog proofs\<close>

text \<open>
  \<open>is_type_object\<close>: the predicate of \<open>find_all_type_objects\<close> goes on to insert
  \<open>addr\<close>. \<open>no_key_clash\<close>: no type object found is named like the alternate key of
  another. \<open>catalog_inv\<close>: every entry of the catalog maps the name or the alternate
  key of a type object found so far to its address. \<open>catalog_step\<close>: what one call of
  the predicate does to \<open>type_objects\<close>.
\<close>

definition is_type_object :: "(MappedPtr \<Rightarrow> PyTypeObject) \<Rightarrow> MappedPtr \<Rightarrow> MappedPtr \<Rightarrow> bool" where
  "is_type_object decode base addr \<longleftrightarrow>
     ob_type (decode addr) = base \<and> tp_invalid_reason (decode addr) = None"

definition no_key_clash :: "(MappedPtr \<Rightarrow> PyTypeObject) \<Rightarrow> MappedPtr \<Rightarrow> MappedPtr set \<Rightarrow> bool" where
  "no_key_clash decode base S \<longleftrightarrow>
     (\<forall>A \<in> S. \<forall>B \<in> S. is_type_object decode base A \<and> is_type_object decode base B \<longrightarrow>
        tp_name (decode B) \<noteq> alternate_key (tp_name (decode A)) A)"

definition catalog_inv ::
  "(MappedPtr \<Rightarrow> PyTypeObject) \<Rightarrow> MappedPtr \<Rightarrow> MappedPtr set \<Rightarrow> (string \<rightharpoonup> MappedPtr) \<Rightarrow> bool" where
  "catalog_inv decode base S m \<longleftrightarrow>
     (\<forall>k v. m k = Some v \<longrightarrow>
        v \<in> S \<and> is_type_object decode base v \<and>
        (k = tp_name (decode v) \<or> k = alternate_key (tp_name (decode v)) v))"

definition catalog_step ::
  "(MappedPtr \<Rightarrow> PyTypeObject) \<Rightarrow> MappedPtr \<Rightarrow> (string \<rightharpoonup> MappedPtr) \<Rightarrow> MappedPtr \<Rightarrow> (string \<rightharpoonup> MappedPtr)" where
  "catalog_step decode base m addr =
     (if \<not> is_type_object decode base addr then m
      else case m (tp_name (decode addr)) of
             None \<Rightarrow> m(tp_name (decode addr) \<mapsto> addr)
           | Some v \<Rightarrow>
               if v = addr then m
               else (case m (alternate_key (tp_name (decode addr)) addr) of
                       None \<Rightarrow> m(alternate_key (tp_name (decode addr)) addr \<mapsto> addr)
                     | Some w \<Rightarrow> m))"

section \<open>Properties of the snapshot store\<close>









section \<open>Properties of the scanner\<close>

lemma start_offset_0 [simp]: "start_offset regions 0 = 0"
  by (simp add: start_offset_def)






lemma start_offset_append:
  "i \<le> length rs \<Longrightarrow> start_offset (rs @ more_rs) i = start_offset rs i"
  by (simp add: start_offset_def region_sizes_def)













lemma size_add_nowrap: "a + b < 2 ^ 64 \<Longrightarrow> size_add a b = a + b"
  by (simp add: size_add_def)




























section \<open>Properties of the catalog queries\<close>

lemma hex_digits_numeral:
  "hex_digits (numeral k) n = hex_digits (pred_numeral k) (n div 16) @ [hex_digit (n mod 16)]"
proof -
  have "hex_digits (Suc (pred_numeral k)) n = hex_digits (pred_numeral k) (n div 16) @ [hex_digit (n mod 16)]"
    by (rule hex_digits.simps)
  then show ?thesis by (simp only: numeral_eq_Suc[symmetric])
qed

lemma hex_digits_1: "hex_digits 1 n = [hex_digit (n mod 16)]"
  by simp

lemma fmt_ex: "fmt_addr 0x5CA3F8F849A0 = ''00005CA3F8F849A0''"
  by (simp add: fmt_addr_def hex_digit_def hex_digits_numeral hex_digits_1)

lemma alt_ex: "alternate_key ''foo'' 0x2000 = ''foo+0000000000002000''"
  by (simp add: alternate_key_def fmt_addr_def hex_digit_def hex_digits_numeral hex_digits_1)

lemma length_hex_digits [simp]: "length (hex_digits k n) = k"
  by (induction k arbitrary: n) auto

lemma hex_digit_inj:
  assumes "a < 16" "b < 16" "hex_digit a = hex_digit b"
  shows "a = b"
proof -
  have "distinct ''0123456789ABCDEF''" by simp
  moreover have "a < length ''0123456789ABCDEF''" "b < length ''0123456789ABCDEF''"
    using assms by simp_all
  ultimately show ?thesis
    using assms(3) unfolding hex_digit_def by (simp only: nth_eq_iff_index_eq)
qed

lemma hex_digits_inj:
  "n < 16 ^ k \<Longrightarrow> m < 16 ^ k \<Longrightarrow> hex_digits k n = hex_digits k m \<Longrightarrow> n = m"
proof (induction k arbitrary: n m)
  case 0
  then show ?case by simp
next
  case (Suc k)
  from Suc.prems(3) have hd: "hex_digits k (n div 16) = hex_digits k (m div 16)"
    and ld: "hex_digit (n mod 16) = hex_digit (m mod 16)"
    by simp_all
  have "n div 16 < 16 ^ k" "m div 16 < 16 ^ k"
    using Suc.prems(1,2) by (simp_all add: less_mult_imp_div_less mult.commute)
  then have d: "n div 16 = m div 16" using hd by (rule Suc.IH)
  have md: "n mod 16 = m mod 16" using ld by (intro hex_digit_inj) simp_all
  have "n = 16 * (n div 16) + n mod 16" by simp
  also have "\<dots> = 16 * (m div 16) + m mod 16" by (simp only: d md)
  also have "\<dots> = m" by simp
  finally show ?case .
qed

lemma fmt_addr_inj: "fmt_addr a = fmt_addr b \<Longrightarrow> a = b"
proof -
  assume eq: "fmt_addr a = fmt_addr b"
  have "unat a < 2 ^ 64" "unat b < 2 ^ 64"
    using unsigned_less[of a] unsigned_less[of b] by simp_all
  moreover have "(2::nat) ^ 64 = 16 ^ 16" by simp
  ultimately have "unat a < 16 ^ 16" "unat b < 16 ^ 16" by simp_all
  then have "unat a = unat b" using eq unfolding fmt_addr_def by (rule hex_digits_inj)
  then show ?thesis by (simp add: word_unat_eq_iff)
qed

lemma length_fmt_addr [simp]: "length (fmt_addr a) = 16"
  by (simp add: fmt_addr_def)

lemma alternate_key_inj:
  "alternate_key n a = alternate_key n' a' \<Longrightarrow> n = n' \<and> a = a'"
proof -
  assume "alternate_key n a = alternate_key n' a'"
  then have "n @ (''+'' @ fmt_addr a) = n' @ (''+'' @ fmt_addr a')"
    by (simp add: alternate_key_def)
  moreover have "length (''+'' @ fmt_addr a) = length (''+'' @ fmt_addr a')" by simp
  ultimately have "n = n' \<and> ''+'' @ fmt_addr a = ''+'' @ fmt_addr a'"
    by (metis append_eq_append_conv)
  then show ?thesis by (auto dest: fmt_addr_inj)
qed

lemma alternate_key_neq: "alternate_key n a \<noteq> n"
proof
  assume "alternate_key n a = n"
  then have "length (alternate_key n a) = length n" by simp
  then show False by (simp add: alternate_key_def)
qed

lemma foldl_log_env [simp]:
  "env (foldl (\<lambda>s addr. log_stderr (f addr) s) sh xs) = env sh"
  by (induction xs arbitrary: sh) (simp_all add: log_stderr_def)

lemma foldl_log_analysis_data [simp]:
  "analysis_data (foldl (\<lambda>s addr. log_stderr (f addr) s) sh xs) = analysis_data sh"
  by (induction xs arbitrary: sh) (simp_all add: log_stderr_def)

lemma length_one_obtain: "length ys = 1 \<Longrightarrow> \<exists>A. ys = [A]"
  by (cases ys) simp_all


lemma filter_single_eq:
  "length (filter P xs) = 1 \<Longrightarrow> A \<in> set xs \<Longrightarrow> P A \<Longrightarrow> filter P xs = [A]"
proof -
  assume len: "length (filter P xs) = 1" and A: "A \<in> set xs" "P A"
  from len obtain B where B: "filter P xs = [B]" using length_one_obtain by blast
  from A have "A \<in> set (filter P xs)" by simp
  with B show ?thesis by simp
qed

lemma find_base_type_object_one:
  assumes "length (filter (is_base_type_candidate decode) scan) = 1"
    and "A \<in> set scan" and "is_base_type_candidate decode A"
  shows "env (find_base_type_object decode scan sh) = (env sh)\<lparr>base_type_object := A\<rparr> \<and>
         analysis_data (find_base_type_object decode scan sh) =
           analysis_data sh @ [(env sh)\<lparr>base_type_object := A\<rparr>]"
  using assms(1) filter_single_eq[OF assms]
  by (simp add: find_base_type_object_def Let_def save_analysis_def log_stderr_def)

lemma find_base_type_object_other:
  assumes "length (filter (is_base_type_candidate decode) scan) \<noteq> 1"
  shows "env (find_base_type_object decode scan sh) = env sh \<and>
         analysis_data (find_base_type_object decode scan sh) = analysis_data sh"
  using assms by (simp add: find_base_type_object_def Let_def)

lemma type_object_found_base [simp]:
  "base_type_object (env (fst (type_object_found decode st addr))) = base_type_object (env (fst st))"
  by (simp add: type_object_found_def Let_def log_stderr_def)

lemma type_object_found_analysis_data [simp]:
  "analysis_data (fst (type_object_found decode st addr)) = analysis_data (fst st)"
  by (simp add: type_object_found_def Let_def log_stderr_def)

lemma type_object_found_step:
  "type_objects (env (fst (type_object_found decode st addr))) =
     catalog_step decode (base_type_object (env (fst st))) (type_objects (env (fst st))) addr"
  by (simp add: type_object_found_def catalog_step_def Let_def log_stderr_def emplace_def
      is_type_object_def split: option.split)

lemma catalog_step_mono:
  "m k = Some v \<Longrightarrow> catalog_step decode base m addr k = Some v"
  by (auto simp: catalog_step_def split: option.split)

lemma catalog_step_inv:
  assumes "catalog_inv decode base S m"
  shows "catalog_inv decode base (insert addr S) (catalog_step decode base m addr)"
proof (cases "is_type_object decode base addr")
  case False
  with assms show ?thesis by (auto simp: catalog_step_def catalog_inv_def)
next
  case True
  have weak: "catalog_inv decode base (insert addr S) m"
    using assms by (auto simp: catalog_inv_def)
  have upd: "catalog_inv decode base (insert addr S) (m(k \<mapsto> addr))"
    if "k = tp_name (decode addr) \<or> k = alternate_key (tp_name (decode addr)) addr" for k
    using weak True that unfolding catalog_inv_def by (simp split: if_splits)
  show ?thesis
    using True weak upd
    by (simp add: catalog_step_def split: option.split)
qed

lemma catalog_step_plain:
  "is_type_object decode base addr \<Longrightarrow> catalog_step decode base m addr (tp_name (decode addr)) \<noteq> None"
  by (simp add: catalog_step_def alternate_key_neq[symmetric] split: option.split)

lemma catalog_step_retained:
  assumes ty: "is_type_object decode base addr"
    and inv: "catalog_inv decode base S m"
    and nc: "no_key_clash decode base (insert addr S)"
  shows "catalog_step decode base m addr (tp_name (decode addr)) = Some addr \<or>
         catalog_step decode base m addr (alternate_key (tp_name (decode addr)) addr) = Some addr"
proof -
  let ?n = "tp_name (decode addr)"
  show ?thesis
  proof (cases "m ?n")
    case None
    with ty show ?thesis by (simp add: catalog_step_def)
  next
    case (Some v)
    note mn = this
    show ?thesis
    proof (cases "v = addr")
      case True
      with mn ty show ?thesis by (simp add: catalog_step_def)
    next
      case False
      show ?thesis
      proof (cases "m (alternate_key ?n addr)")
        case None
        with mn False ty show ?thesis by (simp add: catalog_step_def)
      next
        case (Some w)
        with inv have w: "w \<in> S" "is_type_object decode base w"
          and k: "alternate_key ?n addr = tp_name (decode w) \<or>
                  alternate_key ?n addr = alternate_key (tp_name (decode w)) w"
          by (auto simp: catalog_inv_def)
        from nc ty w have "tp_name (decode w) \<noteq> alternate_key ?n addr"
          by (auto simp: no_key_clash_def)
        with k have "alternate_key ?n addr = alternate_key (tp_name (decode w)) w" by auto
        then have "w = addr" by (auto dest: alternate_key_inj)
        with Some mn False ty show ?thesis by (simp add: catalog_step_def)
      qed
    qed
  qed
qed

lemma foldl_found_base [simp]:
  "base_type_object (env (fst (foldl (type_object_found decode) st scan))) =
     base_type_object (env (fst st))"
  by (induction scan arbitrary: st) simp_all

lemma foldl_found_analysis_data [simp]:
  "analysis_data (fst (foldl (type_object_found decode) st scan)) = analysis_data (fst st)"
  by (induction scan arbitrary: st) simp_all

lemma foldl_found_types:
  "type_objects (env (fst (foldl (type_object_found decode) st scan))) =
     foldl (catalog_step decode (base_type_object (env (fst st)))) (type_objects (env (fst st))) scan"
  by (induction scan arbitrary: st) (simp_all add: type_object_found_step)

lemma foldl_step_mono:
  "m k = Some v \<Longrightarrow> foldl (catalog_step decode base) m scan k = Some v"
  by (induction scan arbitrary: m) (simp_all add: catalog_step_mono)

lemma foldl_step_inv:
  "catalog_inv decode base S m \<Longrightarrow>
     catalog_inv decode base (S \<union> set scan) (foldl (catalog_step decode base) m scan)"
proof (induction scan arbitrary: m S)
  case Nil
  then show ?case by simp
next
  case (Cons a rest)
  have "catalog_inv decode base (insert a S \<union> set rest)
          (foldl (catalog_step decode base) (catalog_step decode base m a) rest)"
    by (rule Cons.IH[OF catalog_step_inv[OF Cons.prems]])
  then show ?case by simp
qed

lemma foldl_step_retained:
  "catalog_inv decode base S m \<Longrightarrow> no_key_clash decode base (S \<union> set scan) \<Longrightarrow>
   A \<in> set scan \<Longrightarrow> is_type_object decode base A \<Longrightarrow>
     foldl (catalog_step decode base) m scan (tp_name (decode A)) = Some A \<or>
     foldl (catalog_step decode base) m scan (alternate_key (tp_name (decode A)) A) = Some A"
proof (induction scan arbitrary: m S)
  case Nil
  then show ?case by simp
next
  case (Cons a rest)
  have inv1: "catalog_inv decode base (insert a S) (catalog_step decode base m a)"
    by (rule catalog_step_inv[OF Cons.prems(1)])
  have nc1: "no_key_clash decode base (insert a S \<union> set rest)"
    using Cons.prems(2) by simp
  show ?case
  proof (cases "A = a")
    case True
    have "no_key_clash decode base (insert a S)"
      using Cons.prems(2) by (auto simp: no_key_clash_def)
    with Cons.prems(1,4) True
    have "catalog_step decode base m a (tp_name (decode A)) = Some A \<or>
          catalog_step decode base m a (alternate_key (tp_name (decode A)) A) = Some A"
      using catalog_step_retained[of decode base a S m] by simp
    then show ?thesis
      using foldl_step_mono[of "catalog_step decode base m a" _ A decode base rest] by auto
  next
    case False
    with Cons.prems(3) have "A \<in> set rest" by simp
    from Cons.IH[OF inv1 nc1 this Cons.prems(4)] show ?thesis by simp
  qed
qed

lemma foldl_step_plain:
  "A \<in> set scan \<Longrightarrow> is_type_object decode base A \<Longrightarrow>
     foldl (catalog_step decode base) m scan (tp_name (decode A)) \<noteq> None"
proof (induction scan arbitrary: m)
  case Nil
  then show ?case by simp
next
  case (Cons a rest)
  show ?case
  proof (cases "A = a")
    case True
    with Cons.prems obtain v where "catalog_step decode base m a (tp_name (decode A)) = Some v"
      using catalog_step_plain[of decode base a m] by auto
    then show ?thesis using foldl_step_mono by fastforce
  next
    case False
    with Cons show ?thesis by simp
  qed
qed

lemma catalog_inv_empty: "catalog_inv decode base {} Map.empty"
  by (simp add: catalog_inv_def)

lemma find_all_type_objects_Inr:
  assumes "find_all_type_objects decode scan sh = Inr sh'"
  shows "\<not> is_null (base_type_object (env sh)) \<and>
         base_type_object (env sh') = base_type_object (env sh) \<and>
         type_objects (env sh') = foldl (catalog_step decode (base_type_object (env sh))) Map.empty scan"
  using assms
  by (auto simp: find_all_type_objects_def Let_def save_analysis_def foldl_found_types
      split: if_splits)

section \<open>Properties of the await graph\<close>






lemma print_entry_null: "print_entry g repr d 0 st = st"
  by (simp add: print_entry.simps is_null_def)




section \<open>The claims about the snapshot store and the scanner\<close>

text \<open>
  What \<open>obj_valid_or_null\<close> computes: the negation covers the conjunction of the
  misalignment test and the range test, so a non-null address passes when it is aligned
  or when its range does not exist.
\<close>

lemma obj_valid_or_null_code:
  "obj_valid_or_null r sizeof_T addr alignment \<longleftrightarrow>
     addr = 0 \<or> addr AND (alignment - 1) = 0 \<or> \<not> exists_range r addr sizeof_T"
  by (auto simp: obj_valid_or_null_def)

text \<open>
  Claim C1: \<open>obj_valid_or_null(addr, align)\<close> is true iff \<open>addr\<close> is null or
  \<open>obj_valid(addr, align)\<close> is true. The code departs from it: with one region
  \<open>[0x1000, 0x2000)\<close>, the non-null, 8-aligned address 0x3000 lies in no region, so
  \<open>obj_valid\<close> rejects it, and \<open>obj_valid_or_null\<close> accepts it.
\<close>

theorem obj_valid_or_null_accepts_unmapped:
  "obj_valid_or_null (one_region_reader 0x1000 0x1000) 8 0x3000 8 \<and>
   \<not> obj_valid (one_region_reader 0x1000 0x1000) 8 0x3000 8 \<and>
   \<not> is_null 0x3000"
  by (simp add: obj_valid_or_null_def obj_valid_def exists_range_def find_region_by_mapped_addr_def
      one_region_reader_def zero_view_def upper_bound_def offset_bytes_def is_null_def)

text \<open>
  Claim C4: whenever \<open>exists_range(addr, n)\<close> is true, \<open>read(addr, n)\<close> does not
  fail, also when \<open>addr + n\<close> overflows 64 bits. The code departs from it: with one
  region \<open>[0x1000, 0x2000)\<close>, \<open>addr = 0x1800\<close> and \<open>n = 2^64 - 0x100\<close>, the sum
  \<open>addr + n\<close> wraps to 0x1700, \<open>exists_range\<close> compares 0x700 with the region size
  and answers true, and \<open>read\<close>, which tests the overflow, throws out of range.
\<close>

theorem exists_range_wrapped_read_fails:
  "exists_range (one_region_reader 0x1000 0x1000) 0x1800 0xFFFFFFFFFFFFFF00 \<and>
   read (one_region_reader 0x1000 0x1000) 0x1800 0xFFFFFFFFFFFFFF00 = Inl OutOfRange"
  by (simp add: read_def exists_range_def find_region_by_mapped_addr_def one_region_reader_def
      zero_view_def upper_bound_def offset_bytes_def bytes_until_def)









section \<open>The claims about the type catalog\<close>



text \<open>
  Claim C7 as stated, two runs of find-all-types on the same snapshot with the same
  catalog state give the same mapping, fails: the scanner's calls are unordered, and the
  type object that reaches the lock first gets the plain name. With two type objects
  named \<open>foo\<close> at 0x1000 and 0x2000, the order 0x1000, 0x2000 maps \<open>foo\<close> to 0x1000 and
  the order 0x2000, 0x1000 maps \<open>foo\<close> to 0x2000.
\<close>

theorem find_all_types_order_dependent:
  "(case find_all_type_objects example_types [0x1000, 0x2000] example_shell of
      Inr s \<Rightarrow> type_objects (env s) ''foo'' | Inl e \<Rightarrow> None) = Some 0x1000 \<and>
   (case find_all_type_objects example_types [0x2000, 0x1000] example_shell of
      Inr s \<Rightarrow> type_objects (env s) ''foo'' | Inl e \<Rightarrow> None) = Some 0x2000"
  by (simp add: find_all_type_objects_def example_shell_def empty_shell_def example_types_def
      type_object_found_def Let_def emplace_def log_stderr_def save_analysis_def is_null_def)

text \<open>
  Claim C7, amended: for a given order of the predicate's calls, find-all-types
  produces a mapping that depends only on the snapshot, the base type and that order
  (not on the previous contents of the catalog); and in every order, when no type object
  found is named like the alternate key \<open>{name}+{address}\<close> of another, every type
  object found is retained: the plain name maps to a type object found with that name,
  and every type object found is stored under its plain name or under its alternate key.
  So of two type objects that share a name, one is under the plain name and the other
  under its alternate key.
\<close>

theorem find_all_types_retains_all:
  assumes run: "find_all_type_objects decode scan sh = Inr sh'"
    and nc: "no_key_clash decode (base_type_object (env sh)) (set scan)"
  shows "type_objects (env sh') =
           foldl (catalog_step decode (base_type_object (env sh))) Map.empty scan \<and>
         (\<forall>A \<in> set scan. is_type_object decode (base_type_object (env sh)) A \<longrightarrow>
            (type_objects (env sh') (tp_name (decode A)) = Some A \<or>
             type_objects (env sh') (alternate_key (tp_name (decode A)) A) = Some A) \<and>
            (\<exists>F \<in> set scan. is_type_object decode (base_type_object (env sh)) F \<and>
               tp_name (decode F) = tp_name (decode A) \<and>
               type_objects (env sh') (tp_name (decode A)) = Some F))"
proof -
  let ?base = "base_type_object (env sh)"
  let ?m = "foldl (catalog_step decode ?base) Map.empty scan"
  from find_all_type_objects_Inr[OF run] have m: "type_objects (env sh') = ?m" by simp
  have inv: "catalog_inv decode ?base (set scan) ?m"
    using foldl_step_inv[OF catalog_inv_empty, of decode ?base scan] by simp
  have each: "(?m (tp_name (decode A)) = Some A \<or> ?m (alternate_key (tp_name (decode A)) A) = Some A) \<and>
            (\<exists>F \<in> set scan. is_type_object decode ?base F \<and>
               tp_name (decode F) = tp_name (decode A) \<and> ?m (tp_name (decode A)) = Some F)"
    if A: "A \<in> set scan" and ty: "is_type_object decode ?base A" for A
  proof -
    have ret: "?m (tp_name (decode A)) = Some A \<or> ?m (alternate_key (tp_name (decode A)) A) = Some A"
      using foldl_step_retained[OF catalog_inv_empty _ A ty] nc by simp
    from foldl_step_plain[OF A ty] obtain F where F: "?m (tp_name (decode A)) = Some F"
      by blast
    with inv have Fin: "F \<in> set scan" and Fty: "is_type_object decode ?base F"
      and k: "tp_name (decode A) = tp_name (decode F) \<or>
              tp_name (decode A) = alternate_key (tp_name (decode F)) F"
      unfolding catalog_inv_def by blast+
    from nc Fin Fty A ty have "tp_name (decode A) \<noteq> alternate_key (tp_name (decode F)) F"
      unfolding no_key_clash_def by blast
    with k have "tp_name (decode F) = tp_name (decode A)" by simp
    with ret F Fin Fty show ?thesis by blast
  qed
  from m each show ?thesis by simp
qed

text \<open>
  The amended claim C7 on the example snapshot, in the order 0x2000, 0x1000: \<open>foo\<close>
  maps to 0x2000 and \<open>foo+0000000000001000\<close> to 0x1000.
\<close>

theorem find_all_types_retains_all_witness:
  "find_all_type_objects example_types [0x2000, 0x1000] example_shell \<noteq> Inl RuntimeError \<and>
   (\<exists>s. find_all_type_objects example_types [0x2000, 0x1000] example_shell = Inr s \<and>
     type_objects (env s) ''foo'' = Some 0x2000 \<and>
     type_objects (env s) ''foo+0000000000001000'' = Some 0x1000)"
proof -
  let ?scan = "[0x2000, 0x1000 :: MappedPtr]"
  obtain s where s: "find_all_type_objects example_types ?scan example_shell = Inr s"
    by (simp add: find_all_type_objects_def example_shell_def empty_shell_def is_null_def Let_def)
  have base: "base_type_object (env example_shell) = 0x5000"
    by (simp add: example_shell_def empty_shell_def)
  have names: "tp_name (example_types 0x1000) = ''foo''" "tp_name (example_types 0x2000) = ''foo''"
    by (simp_all add: example_types_def)
  have ty: "is_type_object example_types 0x5000 0x1000" "is_type_object example_types 0x5000 0x2000"
    by (simp_all add: is_type_object_def example_types_def)
  have nc: "no_key_clash example_types (base_type_object (env example_shell)) (set ?scan)"
    by (simp add: no_key_clash_def base names alternate_key_neq[symmetric])
  note main = find_all_types_retains_all[OF s nc]
  have m: "type_objects (env s) =
      foldl (catalog_step example_types 0x5000) Map.empty ?scan"
    using main[THEN conjunct1] by (simp only: base)
  have foo: "type_objects (env s) ''foo'' = Some 0x2000"
    by (simp add: m catalog_step_def ty names)
  have mem: "0x1000 \<in> set ?scan" by simp
  have ty1: "is_type_object example_types (base_type_object (env example_shell)) 0x1000"
    using ty(1) by (simp only: base)
  from main[THEN conjunct2, THEN bspec, OF mem, THEN mp, OF ty1, THEN conjunct1]
  have "type_objects (env s) ''foo'' = Some 0x1000 \<or>
        type_objects (env s) (alternate_key ''foo'' 0x1000) = Some 0x1000"
    by (simp only: names)
  with foo have "type_objects (env s) (alternate_key ''foo'' 0x1000) = Some 0x1000"
    by simp
  moreover have "alternate_key ''foo'' 0x1000 = ''foo+0000000000001000''"
    by (simp add: alternate_key_def fmt_addr_def hex_digit_def hex_digits_numeral hex_digits_1)
  ultimately have alt: "type_objects (env s) ''foo+0000000000001000'' = Some 0x1000" by simp
  from s foo alt show ?thesis by simp
qed

text \<open>
  Claim C8: after \<open>find_base_type_object\<close> on a catalog whose base type is null,
  followed by a \<open>find_all_type_objects\<close> that does not throw, the base type has its own
  address as \<open>ob_type\<close>, and every address stored in \<open>type_objects\<close> has the base
  type as \<open>ob_type\<close>.
\<close>

theorem catalog_types_have_base_type:
  assumes null: "is_null (base_type_object (env sh))"
    and run: "find_all_type_objects decode scan2 (find_base_type_object decode scan1 sh) = Inr sh'"
  shows "ob_type (decode (base_type_object (env sh'))) = base_type_object (env sh') \<and>
         (\<forall>name A. type_objects (env sh') name = Some A \<longrightarrow>
            ob_type (decode A) = base_type_object (env sh'))"
proof -
  let ?sh1 = "find_base_type_object decode scan1 sh"
  let ?P = "is_base_type_candidate decode"
  let ?base = "base_type_object (env ?sh1)"
  from find_all_type_objects_Inr[OF run]
  have nn: "\<not> is_null ?base" and b: "base_type_object (env sh') = ?base"
    and m: "type_objects (env sh') = foldl (catalog_step decode ?base) Map.empty scan2"
    by simp_all
  have one: "length (filter ?P scan1) = 1"
  proof (rule ccontr)
    assume "length (filter ?P scan1) \<noteq> 1"
    from find_base_type_object_other[OF this, of sh] have "env ?sh1 = env sh" by simp
    with null nn show False by simp
  qed
  then obtain A where A: "filter ?P scan1 = [A]" using length_one_obtain by blast
  then have "A \<in> set (filter ?P scan1)" by simp
  then have Ain: "A \<in> set scan1" and PA: "?P A" by simp_all
  from find_base_type_object_one[OF one Ain PA, of sh] have "?base = A" by simp
  moreover from PA have "ob_type (decode A) = A" by (simp add: is_base_type_candidate_def Let_def)
  ultimately have self: "ob_type (decode ?base) = ?base" by simp
  have inv: "catalog_inv decode ?base (set scan2) (type_objects (env sh'))"
    using foldl_step_inv[OF catalog_inv_empty, of decode ?base scan2] m by simp
  have "ob_type (decode B) = ?base" if "type_objects (env sh') name = Some B" for name B
    using inv that unfolding catalog_inv_def is_type_object_def by blast
  with self b show ?thesis by simp
qed

text \<open>
  Claim C8 on the example snapshot: the base type 0x5000 is found and is its own type,
  and \<open>foo\<close> maps to 0x1000, whose \<open>ob_type\<close> is 0x5000.
\<close>

theorem catalog_types_have_base_type_witness:
  "is_null (base_type_object (env empty_shell)) \<and>
   (\<exists>s. find_all_type_objects example_types [0x1000, 0x2000, 0x5000]
           (find_base_type_object example_types [0x1000, 0x2000, 0x5000] empty_shell) = Inr s \<and>
     base_type_object (env s) = 0x5000 \<and>
     ob_type (example_types (base_type_object (env s))) = base_type_object (env s) \<and>
     type_objects (env s) ''foo'' = Some 0x1000 \<and>
     ob_type (example_types 0x1000) = base_type_object (env s))"
proof -
  let ?scan = "[0x1000, 0x2000, 0x5000 :: MappedPtr]"
  have null: "is_null (base_type_object (env empty_shell))"
    by (simp add: empty_shell_def is_null_def)
  have fb: "env (find_base_type_object example_types ?scan empty_shell) =
      \<lparr>base_type_object = 0x5000, type_objects = Map.empty\<rparr>"
    by (simp add: find_base_type_object_def is_base_type_candidate_def example_types_def
        empty_shell_def Let_def log_stderr_def save_analysis_def)
  obtain s where s: "find_all_type_objects example_types ?scan
           (find_base_type_object example_types ?scan empty_shell) = Inr s"
    by (simp add: find_all_type_objects_def fb is_null_def Let_def)
  note main = catalog_types_have_base_type[OF null s]
  from find_all_type_objects_Inr[OF s] have base: "base_type_object (env s) = 0x5000"
    and m: "type_objects (env s) = foldl (catalog_step example_types 0x5000) Map.empty ?scan"
    by (simp_all add: fb)
  have foo: "type_objects (env s) ''foo'' = Some 0x1000"
    by (simp add: m catalog_step_def is_type_object_def example_types_def)
  from main foo have "ob_type (example_types (base_type_object (env s))) = base_type_object (env s)"
    and "ob_type (example_types 0x1000) = base_type_object (env s)"
    by blast+
  with null s base foo show ?thesis by simp
qed

section \<open>The claim about the await graph\<close>




end
